theory Spec2Isabelle
  imports Complex_Main "HOL-Library.Sublist" "HOL-Library.AList"
begin

section \<open>The blog crawler \<open>crawl_vitalki.py\<close>\<close>

text \<open>
  The script is one coroutine, \<open>crawl_vitalik_blog\<close>, and the \<open>__main__\<close> guard in front
  of it. Everything it does is an effect on the outside world: it reads the process
  environment, creates two directories, asks the crawl engine for pages, writes JSON files,
  prints progress lines and sleeps. The model passes a \<open>world\<close> through the code; the world
  holds the files written so far and the chronological trace of every effect. What the
  outside world answers (the engine's results, the clock, the random number generator) is
  an input of the model.

  Outside the model: the serialisation that \<open>json.dump\<close> performs (a file holds the value
  that was handed to \<open>json.dump\<close>), I/O errors of the file system, and the browser that the
  \<open>async with\<close> block starts and stops.
\<close>

subsection \<open>Values\<close>

text \<open>What \<open>json.loads\<close> returns and \<open>json.dump\<close> accepts. A \<open>dict\<close> keeps insertion order.\<close>

datatype json =
    JNull
  | JBool bool
  | JNum rat
  | JStr string
  | JArr "json list"
  | JObj "(string \<times> json) list"

type_synonym dict = "(string \<times> json) list"

text \<open>\<open>d.get(key, default)\<close>\<close>

definition dict_get :: "dict \<Rightarrow> string \<Rightarrow> json \<Rightarrow> json" where
  "dict_get d key dflt = (case map_of d key of None \<Rightarrow> dflt | Some v \<Rightarrow> v)"

text \<open>
  \<open>d.update(other)\<close>: the keys of \<open>other\<close> are assigned in order; a key that \<open>d\<close> has keeps
  its position and takes the new value, a new key goes to the end.
\<close>

definition dict_update :: "dict \<Rightarrow> dict \<Rightarrow> dict" where
  "dict_update d other = fold (\<lambda>(k, v). AList.update k v) other d"

text \<open>\<open>sub in s\<close> and \<open>s.startswith(p)\<close> on \<open>str\<close>.\<close>

definition contains :: "string \<Rightarrow> string \<Rightarrow> bool" where
  "contains s sub = sublist sub s"

definition startswith :: "string \<Rightarrow> string \<Rightarrow> bool" where
  "startswith s p = prefix p s"

text \<open>
  Truthiness of an \<open>Optional[str]\<close>, as \<open>not\<close> tests it: \<open>None\<close> and the empty string are
  false.
\<close>

fun truthy :: "string option \<Rightarrow> bool" where
  "truthy None = False"
| "truthy (Some s) = (s \<noteq> [])"

datatype exn =
    ValueError string
  | KeyError string
  | AttributeError string
  | EngineError string

subsection \<open>The capture timestamp\<close>

record datetime =
  year :: nat
  month :: nat
  day :: nat
  hour :: nat
  minute :: nat
  second :: nat
  microsecond :: nat

definition digit :: "nat \<Rightarrow> char" where
  "digit n = ''0123456789'' ! (n mod 10)"

definition pad2 :: "nat \<Rightarrow> string" where
  "pad2 n = [digit (n div 10), digit n]"

definition pad4 :: "nat \<Rightarrow> string" where
  "pad4 n = [digit (n div 1000), digit (n div 100), digit (n div 10), digit n]"

text \<open>\<open>datetime.now().strftime("%Y%m%d_%H%M%S")\<close>, for a year of four digits.\<close>

definition strftime :: "datetime \<Rightarrow> string" where
  "strftime d =
     pad4 (year d) @ pad2 (month d) @ pad2 (day d) @ ''_'' @
     pad2 (hour d) @ pad2 (minute d) @ pad2 (second d)"

subsection \<open>The crawl engine's interface\<close>

text \<open>
  The engine (\<open>crawl4ai\<close>) is not part of the repository. The script uses these parts of
  it: a run configuration, and a result with a success flag, an error message, the page in
  two forms, a metadata mapping, the extractor's output and the links of the page, grouped
  by the engine under keys such as \<open>internal\<close> and \<open>external\<close>. A link is a \<open>dict\<close> of
  strings. The extraction strategy also carries the schema of \<open>BlogPost\<close> and the
  instruction text; the script hands them to the engine and never reads them again, and
  they are left out here.
\<close>

datatype cache_mode = ENABLED | DISABLED | READ_ONLY | WRITE_ONLY | BYPASS

record llm_extraction_strategy =
  provider :: string
  api_token :: string
  chunk_token_threshold :: nat

text \<open>The keyword arguments of \<open>CrawlerRunConfig\<close>; \<open>None\<close> is an argument that is not passed.\<close>

record crawler_run_config =
  cache_mode :: "cache_mode option"
  extraction_strategy :: "llm_extraction_strategy option"
  process_iframes :: "bool option"
  wait_for_images :: "bool option"

type_synonym link = "(string \<times> string) list"

record crawl_result =
  success :: bool
  error_message :: string
  html :: string
  markdown :: string
  metadata :: dict
  extracted_content :: "string option"
  links :: "(string \<times> link list) list"

subsection \<open>The world\<close>

text \<open>The lines the script prints, one constructor for each \<open>print\<close> of the source.\<close>

datatype line =
    Found nat
  | Processing string
  | Failed_to_crawl string string
  | Saved_raw string
  | Saved_processed string
  | Error_decoding string
  | Raw_extracted string
  | Waiting rat
  | Error_processing string exn
  | Traceback exn
  | Crawling_completed
  | Key_not_set
  | Please_set

datatype event =
    Print line
  | Mkdir string
  | Arun string crawler_run_config
  | Open_write string json
  | Sleep rat

record world =
  files :: "string \<rightharpoonup> json"
  trace :: "event list"

definition emit :: "event \<Rightarrow> world \<Rightarrow> world" where
  "emit ev w = w\<lparr>trace := trace w @ [ev]\<rparr>"

definition print :: "line \<Rightarrow> world \<Rightarrow> world" where
  "print l w = emit (Print l) w"

text \<open>\<open>dir.mkdir(parents=True, exist_ok=True)\<close>\<close>

definition mkdir :: "string \<Rightarrow> world \<Rightarrow> world" where
  "mkdir p w = emit (Mkdir p) w"

text \<open>\<open>with open(path, 'w') as f: json.dump(content, f)\<close>: the file is replaced.\<close>

definition open_write :: "string \<Rightarrow> json \<Rightarrow> world \<Rightarrow> world" where
  "open_write path content w = emit (Open_write path content) (w\<lparr>files := (files w)(path \<mapsto> content)\<rparr>)"

definition sleep :: "rat \<Rightarrow> world \<Rightarrow> world" where
  "sleep d w = emit (Sleep d) w"

text \<open>
  What the outside world answers during one pass of the loop: the outcome of
  \<open>crawler.arun\<close> (it raises, or returns a result), the reading of \<open>datetime.now()\<close> and the
  draw of \<open>random.random()\<close>.
\<close>

record step_env =
  arun_result :: "exn + crawl_result"
  now :: datetime
  random :: rat

text \<open>
  What the outside world answers during a run: the process environment (after
  \<open>load_dotenv\<close>), the outcome of the request for the index page, and the answers for each
  pass of the loop, numbered from 0.
\<close>

record run_env =
  environ :: "(string \<times> string) list"
  initial :: "exn + crawl_result"
  steps :: "nat \<Rightarrow> step_env"

definition getenv :: "run_env \<Rightarrow> string \<Rightarrow> string option" where
  "getenv env name = map_of (environ env) name"

subsection \<open>Paths\<close>

definition path_join :: "string \<Rightarrow> string \<Rightarrow> string" where
  "path_join p q = p @ ''/'' @ q"

definition base_dir :: string where
  "base_dir = ''vitalik_blog_data''"

definition raw_dir :: string where
  "raw_dir = path_join base_dir ''raw''"

definition processed_dir :: string where
  "processed_dir = path_join base_dir ''processed''"

definition raw_filename :: "string \<Rightarrow> string" where
  "raw_filename timestamp = path_join raw_dir (''raw_'' @ timestamp @ ''.json'')"

definition processed_filename :: "string \<Rightarrow> string" where
  "processed_filename timestamp = path_join processed_dir (''processed_'' @ timestamp @ ''.json'')"

subsection \<open>Link discovery (lines 66 to 72)\<close>

definition site :: string where
  "site = ''https://vitalik.eth.limo''"

text \<open>
  The loop over the links, with \<open>article_urls\<close> as the accumulator. \<open>link['href']\<close> raises
  \<open>KeyError\<close> when the link has no such key; the loop is not guarded, so the error leaves
  the coroutine.
\<close>

fun discover :: "link list \<Rightarrow> string list \<Rightarrow> exn + string list" where
  "discover [] article_urls = Inr article_urls"
| "discover (link # rest) article_urls =
     (case map_of link ''href'' of
        None \<Rightarrow> Inl (KeyError ''href'')
      | Some href \<Rightarrow>
          if contains href ''/posts/'' \<or> contains href ''/general/''
          then discover rest
                 (article_urls @ [if \<not> startswith href ''http'' then site @ href else href])
          else discover rest article_urls)"

text \<open>\<open>initial_result.links.get("internal", [])\<close>\<close>

definition internal_links :: "crawl_result \<Rightarrow> link list" where
  "internal_links r = (case map_of (links r) ''internal'' of None \<Rightarrow> [] | Some ls \<Rightarrow> ls)"

subsection \<open>One article (lines 78 to 139)\<close>

definition raw_content :: "string \<Rightarrow> crawl_result \<Rightarrow> string \<Rightarrow> json" where
  "raw_content url result timestamp =
     JObj [(''url'', JStr url),
           (''html'', JStr (html result)),
           (''markdown'', JStr (markdown result)),
           (''metadata'', JObj (metadata result)),
           (''crawl_date'', JStr timestamp)]"

text \<open>The fields that line 115 merges into the extractor's record.\<close>

definition required_fields :: "string \<Rightarrow> crawl_result \<Rightarrow> string \<Rightarrow> dict" where
  "required_fields url result timestamp =
     [(''url'', JStr url),
      (''crawl_date'', JStr timestamp),
      (''title'', dict_get (metadata result) ''title'' (JStr '''')),
      (''date_published'', dict_get (metadata result) ''date'' (JStr ''''))]"

text \<open>
  Lines 111 to 128. The test of line 111 fails for \<open>None\<close> and for the empty string.
  \<open>loads\<close> is \<open>json.loads\<close>: it returns the value, or raises \<open>JSONDecodeError\<close> with a
  message (\<open>Inl\<close>). Only that error is caught here. A value that is not a \<open>dict\<close> has no
  \<open>update\<close>: \<open>AttributeError\<close> leaves the block.
\<close>

definition save_processed ::
  "(string \<Rightarrow> string + json) \<Rightarrow> string \<Rightarrow> crawl_result \<Rightarrow> string \<Rightarrow> world \<Rightarrow> exn option \<times> world" where
  "save_processed loads url result timestamp w =
     (case extracted_content result of
        None \<Rightarrow> (None, w)
      | Some text \<Rightarrow>
          if text = [] then (None, w)
          else
            (case loads text of
               Inl e \<Rightarrow> (None, print (Raw_extracted text) (print (Error_decoding e) w))
             | Inr (JObj d) \<Rightarrow>
                 (let processed_content = dict_update d (required_fields url result timestamp);
                      w1 = open_write (processed_filename timestamp) (JObj processed_content) w
                  in (None, print (Saved_processed (processed_filename timestamp)) w1))
             | Inr _ \<Rightarrow> (Some (AttributeError ''update''), w)))"

definition article_config :: "llm_extraction_strategy \<Rightarrow> crawler_run_config" where
  "article_config strategy =
     \<lparr>cache_mode = None, extraction_strategy = Some strategy,
      process_iframes = Some True, wait_for_images = Some True\<rparr>"

text \<open>
  The body of the \<open>try\<close> block. The result is the exception that left it, if any, and the
  world as the body left it; \<open>continue\<close> at line 91 leaves the body without an exception.
\<close>

definition try_body ::
  "(string \<Rightarrow> string + json) \<Rightarrow> llm_extraction_strategy \<Rightarrow> step_env \<Rightarrow> string \<Rightarrow> world
     \<Rightarrow> exn option \<times> world" where
  "try_body loads strategy e url w =
     (let w1 = print (Processing url) w;
          w2 = emit (Arun url (article_config strategy)) w1
      in case arun_result e of
           Inl ex \<Rightarrow> (Some ex, w2)
         | Inr result \<Rightarrow>
             if \<not> success result
             then (None, print (Failed_to_crawl url (error_message result)) w2)
             else
               (let timestamp = strftime (now e);
                    w3 = open_write (raw_filename timestamp) (raw_content url result timestamp) w2;
                    w4 = print (Saved_raw (raw_filename timestamp)) w3
                in case save_processed loads url result timestamp w4 of
                     (Some ex, w5) \<Rightarrow> (Some ex, w5)
                   | (None, w5) \<Rightarrow>
                       (let delay = 2 + random e;
                            w6 = print (Waiting delay) w5
                        in (None, sleep delay w6))))"

text \<open>The \<open>try\<close> statement: the handler at line 135 prints the error and the traceback.\<close>

definition process_article ::
  "(string \<Rightarrow> string + json) \<Rightarrow> llm_extraction_strategy \<Rightarrow> step_env \<Rightarrow> string \<Rightarrow> world \<Rightarrow> world" where
  "process_article loads strategy e url w =
     (case try_body loads strategy e url w of
        (None, w') \<Rightarrow> w'
      | (Some ex, w') \<Rightarrow> print (Traceback ex) (print (Error_processing url ex) w'))"

text \<open>The \<open>for\<close> loop of line 77; \<open>i\<close> counts the passes.\<close>

fun crawl_loop ::
  "(string \<Rightarrow> string + json) \<Rightarrow> llm_extraction_strategy \<Rightarrow> (nat \<Rightarrow> step_env) \<Rightarrow> nat
     \<Rightarrow> string list \<Rightarrow> world \<Rightarrow> world" where
  "crawl_loop loads strategy env i [] w = w"
| "crawl_loop loads strategy env i (url # urls) w =
     crawl_loop loads strategy env (Suc i) urls (process_article loads strategy (env i) url w)"

subsection \<open>The coroutine and the main guard\<close>

definition index_config :: crawler_run_config where
  "index_config =
     \<lparr>cache_mode = Some BYPASS, extraction_strategy = None,
      process_iframes = None, wait_for_images = None\<rparr>"

definition crawl_vitalik_blog ::
  "(string \<Rightarrow> string + json) \<Rightarrow> run_env \<Rightarrow> world \<Rightarrow> exn option \<times> world" where
  "crawl_vitalik_blog loads env w =
     (case getenv env ''OPENAI_API_KEY'' of
        None \<Rightarrow> (Some (ValueError ''OpenAI API key not found''), w)
      | Some api_key \<Rightarrow>
          if api_key = [] then (Some (ValueError ''OpenAI API key not found''), w)
          else
            (let w1 = mkdir processed_dir (mkdir raw_dir w);
                 strategy = \<lparr>provider = ''openai/gpt-4'', api_token = api_key,
                             chunk_token_threshold = 3000\<rparr>;
                 w2 = emit (Arun (site @ ''/'') index_config) w1
             in case initial env of
                  Inl ex \<Rightarrow> (Some ex, w2)
                | Inr initial_result \<Rightarrow>
                    (case discover (internal_links initial_result) [] of
                       Inl ex \<Rightarrow> (Some ex, w2)
                     | Inr article_urls \<Rightarrow>
                         (let w3 = print (Found (length article_urls)) w2;
                              w4 = crawl_loop loads strategy (steps env) 0 article_urls w3
                          in (None, print Crawling_completed w4)))))"

text \<open>
  The \<open>__main__\<close> guard. The result is the exit status of the process: 1 from \<open>exit(1)\<close>,
  1 when an exception leaves \<open>asyncio.run\<close>, 0 otherwise.
\<close>

definition main :: "(string \<Rightarrow> string + json) \<Rightarrow> run_env \<Rightarrow> world \<Rightarrow> nat \<times> world" where
  "main loads env w =
     (if \<not> truthy (getenv env ''OPENAI_API_KEY'')
      then (1, print Please_set (print Key_not_set w))
      else
        (case crawl_vitalik_blog loads env w of
           (None, w') \<Rightarrow> (0, w')
         | (Some ex, w') \<Rightarrow> (1, w')))"

definition world0 :: world where
  "world0 = \<lparr>files = Map.empty, trace = []\<rparr>"

subsection \<open>Reading a trace\<close>

text \<open>The effects that happened between two worlds of the same run.\<close>

definition since :: "world \<Rightarrow> world \<Rightarrow> event list" where
  "since w w' = drop (length (trace w)) (trace w')"

text \<open>The URLs requested from the engine, the files written and the delays slept, in order.\<close>

fun requests :: "event list \<Rightarrow> string list" where
  "requests [] = []"
| "requests (Arun url config # evs) = url # requests evs"
| "requests (ev # evs) = requests evs"

fun writes :: "event list \<Rightarrow> (string \<times> json) list" where
  "writes [] = []"
| "writes (Open_write path content # evs) = (path, content) # writes evs"
| "writes (ev # evs) = writes evs"

fun sleeps :: "event list \<Rightarrow> rat list" where
  "sleeps [] = []"
| "sleeps (Sleep d # evs) = d # sleeps evs"
| "sleeps (ev # evs) = sleeps evs"

fun mkdirs :: "event list \<Rightarrow> string list" where
  "mkdirs [] = []"
| "mkdirs (Mkdir p # evs) = p # mkdirs evs"
| "mkdirs (ev # evs) = mkdirs evs"

text \<open>The files written below a directory.\<close>

definition writes_in :: "string \<Rightarrow> event list \<Rightarrow> (string \<times> json) list" where
  "writes_in dir evs = filter (\<lambda>(path, content). startswith path (dir @ ''/'')) (writes evs)"

subsection \<open>Sample inputs\<close>

text \<open>
  Concrete answers of the outside world, for running the model. \<open>sample_loads\<close> stands
  for \<open>json.loads\<close> in the samples: it agrees with it on the texts that they use
  (\<open>record_text\<close>, \<open>[{}]\<close>, \<open>7\<close> and \<open>not json\<close>).
\<close>

definition record_text :: string where
  \<open>record_text = ''{"title": "Guess", "summary": "S"}''\<close>

definition sample_loads :: "string \<Rightarrow> string + json" where
  "sample_loads s =
     (if s = record_text then Inr (JObj [(''title'', JStr ''Guess''), (''summary'', JStr ''S'')])
      else if s = ''[{}]'' then Inr (JArr [JObj []])
      else if s = ''7'' then Inr (JNum 7)
      else Inl ''Expecting value: line 1 column 1 (char 0)'')"

definition sample_strategy :: llm_extraction_strategy where
  "sample_strategy =
     \<lparr>provider = ''openai/gpt-4'', api_token = ''sk-1'', chunk_token_threshold = 3000\<rparr>"

definition sample_result :: "string option \<Rightarrow> crawl_result" where
  "sample_result x =
     \<lparr>success = True, error_message = [], html = ''<h1>A</h1>'', markdown = ''# A'',
      metadata = [(''title'', JStr ''A'')], extracted_content = x, links = []\<rparr>"

definition failed_result :: crawl_result where
  "failed_result =
     \<lparr>success = False, error_message = ''timeout'', html = [], markdown = [],
      metadata = [], extracted_content = None, links = []\<rparr>"

definition sample_now :: datetime where
  "sample_now =
     \<lparr>year = 2024, month = 1, day = 2, hour = 3, minute = 4, second = 5,
      microsecond = 100000\<rparr>"

definition sample_step :: "exn + crawl_result \<Rightarrow> step_env" where
  "sample_step r = \<lparr>arun_result = r, now = sample_now, random = 1 / 2\<rparr>"

definition url_a :: string where
  "url_a = ''https://vitalik.eth.limo/posts/a''"

definition url_b :: string where
  "url_b = ''https://vitalik.eth.limo/general/b''"

definition index_page :: crawl_result where
  "index_page =
     \<lparr>success = True, error_message = [], html = ''<html>'', markdown = [],
      metadata = [], extracted_content = None,
      links = [(''internal'', [[(''href'', ''/posts/a''), (''text'', ''A'')],
                               [(''href'', ''https://vitalik.eth.limo/general/b'')],
                               [(''href'', ''/about'')]]),
               (''external'', [[(''href'', ''https://example.org/posts/x'')]])]\<rparr>"

definition url_c :: string where
  "url_c = ''https://vitalik.eth.limo/general/c''"

text \<open>
  A run over three articles: the engine reports failure for the first and raises for the
  second; the third is fetched and has no extractor output.
\<close>

definition unpaced_steps :: "nat \<Rightarrow> step_env" where
  "unpaced_steps i =
     (case i of
        0 \<Rightarrow> sample_step (Inr failed_result)
      | Suc 0 \<Rightarrow> sample_step (Inl (EngineError ''connection reset''))
      | Suc (Suc k) \<Rightarrow> sample_step (Inr (sample_result None)))"

definition unpaced_run :: world where
  "unpaced_run =
     crawl_loop sample_loads sample_strategy unpaced_steps 0 [url_a, url_b, url_c] world0"

text \<open>
  A run over two articles that are both fetched within the second 03:04:05, at 0.1 s and at
  0.9 s. The extractor's output is an array both times.
\<close>

definition same_second_steps :: "nat \<Rightarrow> step_env" where
  "same_second_steps i =
     (case i of
        0 \<Rightarrow> sample_step (Inr (sample_result (Some ''[{}]'')))
      | Suc k \<Rightarrow> (sample_step (Inr (sample_result (Some ''[{}]''))))
                   \<lparr>now := sample_now\<lparr>microsecond := 900000\<rparr>\<rparr>)"

definition same_second_run :: world where
  "same_second_run =
     crawl_loop sample_loads sample_strategy same_second_steps 0 [url_a, url_b] world0"

text \<open>A run over two articles fetched one hour apart, the first with a record.\<close>

definition hourly_steps :: "nat \<Rightarrow> step_env" where
  "hourly_steps i =
     (case i of
        0 \<Rightarrow> sample_step (Inr (sample_result (Some record_text)))
      | Suc k \<Rightarrow> (sample_step (Inr (sample_result None)))\<lparr>now := sample_now\<lparr>hour := 4\<rparr>\<rparr>)"

section \<open>Properties of the model\<close>

subsection \<open>Traces, paths and samples\<close>

lemma requests_append: "requests (xs @ ys) = requests xs @ requests ys"
  by (induction xs rule: requests.induct) simp_all

lemma writes_append: "writes (xs @ ys) = writes xs @ writes ys"
  by (induction xs rule: writes.induct) simp_all

lemma since_update [simp]: "since w (w\<lparr>trace := trace w @ evs\<rparr>) = evs"
  by (simp add: since_def)

lemma since_update2 [simp]: "since w (w\<lparr>files := f, trace := trace w @ evs\<rparr>) = evs"
  by (simp add: since_def)

lemmas effect_defs = emit_def print_def mkdir_def open_write_def sleep_def

lemmas path_defs = raw_filename_def processed_filename_def raw_dir_def processed_dir_def
  base_dir_def path_join_def

lemma raw_neq_processed: "raw_filename a \<noteq> processed_filename b"
  by (simp add: path_defs)

lemma raw_in_raw_dir: "startswith (raw_filename t) (raw_dir @ ''/'')"
  by (simp add: path_defs startswith_def)

lemma processed_in_processed_dir: "startswith (processed_filename t) (processed_dir @ ''/'')"
  by (simp add: path_defs startswith_def)

lemma processed_not_in_raw_dir: "\<not> startswith (processed_filename t) (raw_dir @ ''/'')"
  by (simp add: path_defs startswith_def)

lemma raw_not_in_processed_dir: "\<not> startswith (raw_filename t) (processed_dir @ ''/'')"
  by (simp add: path_defs startswith_def)

lemma sample_timestamp: "strftime sample_now = ''20240102_030405''"
  by (simp add: strftime_def sample_now_def pad2_def pad4_def digit_def)

lemma sample_loads_simps:
  "sample_loads record_text = Inr (JObj [(''title'', JStr ''Guess''), (''summary'', JStr ''S'')])"
  "sample_loads ''[{}]'' = Inr (JArr [JObj []])"
  "sample_loads ''7'' = Inr (JNum 7)"
  "sample_loads ''not json'' = Inl ''Expecting value: line 1 column 1 (char 0)''"
  by (simp_all add: sample_loads_def record_text_def)

subsection \<open>The ways through one pass of the loop\<close>

lemma article_raises:
  assumes "arun_result e = Inl ex"
  shows "process_article loads st e url w =
    w\<lparr>trace := trace w @ [Print (Processing url), Arun url (article_config st),
        Print (Error_processing url ex), Print (Traceback ex)]\<rparr>"
  using assms by (simp add: process_article_def try_body_def effect_defs)

lemma article_fetch_failed:
  assumes "arun_result e = Inr result" "\<not> success result"
  shows "process_article loads st e url w =
    w\<lparr>trace := trace w @ [Print (Processing url), Arun url (article_config st),
        Print (Failed_to_crawl url (error_message result))]\<rparr>"
  using assms by (simp add: process_article_def try_body_def effect_defs)

lemma article_not_extracted:
  assumes "arun_result e = Inr result" "success result" "\<not> truthy (extracted_content result)"
  shows "process_article loads st e url w =
    w\<lparr>files := (files w)(raw_filename (strftime (now e)) \<mapsto> raw_content url result (strftime (now e))),
      trace := trace w @ [Print (Processing url), Arun url (article_config st),
        Open_write (raw_filename (strftime (now e))) (raw_content url result (strftime (now e))),
        Print (Saved_raw (raw_filename (strftime (now e)))),
        Print (Waiting (2 + random e)), Sleep (2 + random e)]\<rparr>"
  using assms
  by (cases "extracted_content result")
    (simp_all add: process_article_def try_body_def save_processed_def effect_defs Let_def)

lemma article_decode_error:
  assumes "arun_result e = Inr result" "success result" "extracted_content result = Some s"
    "s \<noteq> []" "loads s = Inl msg"
  shows "process_article loads st e url w =
    w\<lparr>files := (files w)(raw_filename (strftime (now e)) \<mapsto> raw_content url result (strftime (now e))),
      trace := trace w @ [Print (Processing url), Arun url (article_config st),
        Open_write (raw_filename (strftime (now e))) (raw_content url result (strftime (now e))),
        Print (Saved_raw (raw_filename (strftime (now e)))),
        Print (Error_decoding msg), Print (Raw_extracted s),
        Print (Waiting (2 + random e)), Sleep (2 + random e)]\<rparr>"
  using assms by (simp add: process_article_def try_body_def save_processed_def effect_defs Let_def)

lemma article_extracted:
  assumes "arun_result e = Inr result" "success result" "extracted_content result = Some s"
    "s \<noteq> []" "loads s = Inr (JObj d)"
  shows "process_article loads st e url w =
    w\<lparr>files := (files w)(raw_filename (strftime (now e)) \<mapsto> raw_content url result (strftime (now e)),
          processed_filename (strftime (now e)) \<mapsto>
            JObj (dict_update d (required_fields url result (strftime (now e))))),
      trace := trace w @ [Print (Processing url), Arun url (article_config st),
        Open_write (raw_filename (strftime (now e))) (raw_content url result (strftime (now e))),
        Print (Saved_raw (raw_filename (strftime (now e)))),
        Open_write (processed_filename (strftime (now e)))
          (JObj (dict_update d (required_fields url result (strftime (now e))))),
        Print (Saved_processed (processed_filename (strftime (now e)))),
        Print (Waiting (2 + random e)), Sleep (2 + random e)]\<rparr>"
  using assms by (simp add: process_article_def try_body_def save_processed_def effect_defs Let_def)

lemma article_not_a_dict:
  assumes "arun_result e = Inr result" "success result" "extracted_content result = Some s"
    "s \<noteq> []" "loads s = Inr v" "\<forall>d. v \<noteq> JObj d"
  shows "process_article loads st e url w =
    w\<lparr>files := (files w)(raw_filename (strftime (now e)) \<mapsto> raw_content url result (strftime (now e))),
      trace := trace w @ [Print (Processing url), Arun url (article_config st),
        Open_write (raw_filename (strftime (now e))) (raw_content url result (strftime (now e))),
        Print (Saved_raw (raw_filename (strftime (now e)))),
        Print (Error_processing url (AttributeError ''update'')),
        Print (Traceback (AttributeError ''update''))]\<rparr>"
  using assms by (cases v) (simp_all add: process_article_def try_body_def save_processed_def effect_defs Let_def)

text \<open>The six ways through one pass.\<close>

lemma article_cases:
  obtains (raises) ex where "arun_result e = Inl ex"
  | (failed) result where "arun_result e = Inr result" "\<not> success result"
  | (not_extracted) result where "arun_result e = Inr result" "success result"
      "\<not> truthy (extracted_content result)"
  | (decode_error) result s msg where "arun_result e = Inr result" "success result"
      "extracted_content result = Some s" "s \<noteq> []" "loads s = Inl msg"
  | (extracted) result s d where "arun_result e = Inr result" "success result"
      "extracted_content result = Some s" "s \<noteq> []" "loads s = Inr (JObj d)"
  | (not_a_dict) result s v where "arun_result e = Inr result" "success result"
      "extracted_content result = Some s" "s \<noteq> []" "loads s = Inr v" "\<forall>d. v \<noteq> JObj d"
proof (cases "arun_result e")
  case (Inl ex)
  then show ?thesis by (rule raises)
next
  case (Inr result)
  note r = this
  show ?thesis
  proof (cases "success result")
    case False
    with r show ?thesis by (rule failed)
  next
    case True
    note ok = this
    show ?thesis
    proof (cases "extracted_content result")
      case None
      then have "\<not> truthy (extracted_content result)" by simp
      with r ok show ?thesis by (rule not_extracted)
    next
      case (Some s)
      note some = this
      show ?thesis
      proof (cases "s = []")
        case True
        with some have "\<not> truthy (extracted_content result)" by simp
        with r ok show ?thesis by (rule not_extracted)
      next
        case False
        note ne = this
        show ?thesis
        proof (cases "loads s")
          case (Inl msg)
          with r ok some ne show ?thesis by (rule decode_error)
        next
          case (Inr v)
          note v = this
          show ?thesis
          proof (cases "\<exists>d. v = JObj d")
            case True
            then obtain d where "v = JObj d" ..
            with v have "loads s = Inr (JObj d)" by simp
            with r ok some ne show ?thesis by (rule extracted)
          next
            case False
            then have "\<forall>d. v \<noteq> JObj d" by simp
            with r ok some ne v show ?thesis by (rule not_a_dict)
          qed
        qed
      qed
    qed
  qed
qed

lemma process_article_trace:
  "\<exists>evs. trace (process_article loads st e url w) = trace w @ evs \<and> requests evs = [url]"
proof (cases rule: article_cases [where e = e and loads = loads])
  case (raises ex)
  then show ?thesis by (simp add: article_raises)
next
  case (failed result)
  then show ?thesis by (simp add: article_fetch_failed)
next
  case (not_extracted result)
  then show ?thesis by (simp add: article_not_extracted)
next
  case (decode_error result s msg)
  then show ?thesis by (simp add: article_decode_error)
next
  case (extracted result s d)
  then show ?thesis by (simp add: article_extracted)
next
  case (not_a_dict result s v)
  then show ?thesis by (simp add: article_not_a_dict)
qed

lemma crawl_loop_trace:
  "\<exists>evs. trace (crawl_loop loads st env i urls w) = trace w @ evs \<and> requests evs = urls"
proof (induction urls arbitrary: i w)
  case Nil
  then show ?case by simp
next
  case (Cons url urls)
  obtain evs1 where 1: "trace (process_article loads st (env i) url w) = trace w @ evs1"
    "requests evs1 = [url]"
    using process_article_trace by blast
  obtain evs2 where 2: "trace (crawl_loop loads st env (Suc i) urls (process_article loads st (env i) url w))
      = trace (process_article loads st (env i) url w) @ evs2" "requests evs2 = urls"
    using Cons.IH by blast
  from 1 2 show ?case by (simp add: requests_append)
qed

lemma crawl_loop_requests: "requests (since w (crawl_loop loads st env i urls w)) = urls"
  using crawl_loop_trace [of loads st env i urls w] by (auto simp: since_def)

lemma sample_result_fields:
  "success (sample_result x)"
  "html (sample_result x) = ''<h1>A</h1>''"
  "markdown (sample_result x) = ''# A''"
  "metadata (sample_result x) = [(''title'', JStr ''A'')]"
  "extracted_content (sample_result x) = x"
  by (simp_all add: sample_result_def)

lemma sample_step_fields:
  "arun_result (sample_step r) = r"
  "strftime (now (sample_step r)) = ''20240102_030405''"
  "random (sample_step r) = 1 / 2"
  by (simp_all add: sample_step_def sample_timestamp)

lemma sample_paths:
  "raw_filename ''20240102_030405'' = ''vitalik_blog_data/raw/raw_20240102_030405.json''"
  "processed_filename ''20240102_030405'' =
     ''vitalik_blog_data/processed/processed_20240102_030405.json''"
  by (simp_all add: path_defs)

subsection \<open>The merged record\<close>

lemma map_of_required_fields:
  "map_of (dict_update d (required_fields url result t)) k =
     (if k = ''date_published'' then Some (dict_get (metadata result) ''date'' (JStr ''''))
      else if k = ''title'' then Some (dict_get (metadata result) ''title'' (JStr ''''))
      else if k = ''crawl_date'' then Some (JStr t)
      else if k = ''url'' then Some (JStr url)
      else map_of d k)"
  by (simp add: dict_update_def required_fields_def update_conv')

lemma sample_record:
  "dict_update [(''title'', JStr ''Guess''), (''summary'', JStr ''S'')]
     (required_fields url (sample_result x) t) =
   [(''title'', JStr ''A''), (''summary'', JStr ''S''), (''url'', JStr url),
    (''crawl_date'', JStr t), (''date_published'', JStr '''')]"
  by (simp add: dict_update_def required_fields_def dict_get_def sample_result_def)

lemma record_text_nonempty: "record_text \<noteq> []"
  by (simp add: record_text_def)

subsection \<open>Link discovery\<close>

lemma contains_append_left: "contains s sub \<Longrightarrow> contains (p @ s) sub"
  unfolding contains_def sublist_def by (metis append.assoc)

lemma startswith_site: "startswith (site @ href) ''http''"
  by (simp add: startswith_def site_def)

lemma resolved_ok:
  "contains href ''/posts/'' \<or> contains href ''/general/'' \<Longrightarrow>
   u = (if startswith href ''http'' then href else site @ href) \<Longrightarrow>
   (contains u ''/posts/'' \<or> contains u ''/general/'') \<and> startswith u ''http''"
  by (cases "startswith href ''http''") (auto intro: contains_append_left simp: startswith_site)

lemma all_resolved_ok:
  "\<forall>u \<in> set (map (\<lambda>href. if startswith href ''http'' then href else site @ href)
        (filter (\<lambda>href. contains href ''/posts/'' \<or> contains href ''/general/'') hs)).
      (contains u ''/posts/'' \<or> contains u ''/general/'') \<and> startswith u ''http''"
proof
  fix u
  assume "u \<in> set (map (\<lambda>href. if startswith href ''http'' then href else site @ href)
        (filter (\<lambda>href. contains href ''/posts/'' \<or> contains href ''/general/'') hs))"
  then obtain href where "contains href ''/posts/'' \<or> contains href ''/general/''"
    "u = (if startswith href ''http'' then href else site @ href)"
    unfolding set_map set_filter by blast
  then show "(contains u ''/posts/'' \<or> contains u ''/general/'') \<and> startswith u ''http''"
    by (rule resolved_ok)
qed

lemma discover_Inr:
  "discover ls acc = Inr urls \<Longrightarrow>
   urls = acc @ map (\<lambda>href. if startswith href ''http'' then href else site @ href)
            (filter (\<lambda>href. contains href ''/posts/'' \<or> contains href ''/general/'')
               (map (\<lambda>l. the (map_of l ''href'')) ls))"
proof (induction ls arbitrary: acc)
  case Nil
  then show ?case by simp
next
  case (Cons l ls)
  from Cons.prems obtain href where h: "map_of l ''href'' = Some href"
    by (auto split: option.splits)
  show ?case
  proof (cases "contains href ''/posts/'' \<or> contains href ''/general/''")
    case True
    with Cons.prems h
    have "discover ls (acc @ [if \<not> startswith href ''http'' then site @ href else href]) = Inr urls"
      by simp
    from Cons.IH [OF this] True h show ?thesis by simp
  next
    case False
    with Cons.prems h have "discover ls acc = Inr urls" by simp
    from Cons.IH [OF this] False h show ?thesis by simp
  qed
qed

lemma sample_discovery: "discover (internal_links index_page) [] = Inr [url_a, url_b]"
  by (simp add: index_page_def internal_links_def contains_def startswith_def site_def
      sublist_code url_a_def url_b_def)

lemma discover_from_link:
  "discover ls acc = Inr urls \<Longrightarrow> u \<in> set urls \<Longrightarrow>
   u \<in> set acc \<or> (\<exists>l \<in> set ls. \<exists>href. map_of l ''href'' = Some href
        \<and> (contains href ''/posts/'' \<or> contains href ''/general/'')
        \<and> (u = href \<or> u = site @ href))"
proof (induction ls arbitrary: acc)
  case Nil
  then show ?case by simp
next
  case (Cons l ls)
  from Cons.prems obtain href where h: "map_of l ''href'' = Some href"
    by (auto split: option.splits)
  show ?case
  proof (cases "contains href ''/posts/'' \<or> contains href ''/general/''")
    case True
    with Cons.prems h
    have "discover ls (acc @ [if \<not> startswith href ''http'' then site @ href else href]) = Inr urls"
      by simp
    from Cons.IH [OF this Cons.prems(2)] True h show ?thesis
      by (cases "startswith href ''http''") auto
  next
    case False
    with Cons.prems h have "discover ls acc = Inr urls" by simp
    from Cons.IH [OF this Cons.prems(2)] show ?thesis by auto
  qed
qed

subsection \<open>The start of a run\<close>

lemma truthy_Some: "truthy x \<Longrightarrow> \<exists>s. x = Some s \<and> s \<noteq> []"
  by (cases x) simp_all

lemma crawl_started:
  assumes "truthy (getenv env ''OPENAI_API_KEY'')"
  shows "\<exists>rest. trace (snd (crawl_vitalik_blog loads env w)) =
           trace w @ Mkdir raw_dir # Mkdir processed_dir # rest"
proof -
  from truthy_Some [OF assms] obtain api_key
    where k: "getenv env ''OPENAI_API_KEY'' = Some api_key" "api_key \<noteq> []"
    by blast
  show ?thesis
  proof (cases "initial env")
    case (Inl ex)
    with k show ?thesis
      by (simp add: crawl_vitalik_blog_def effect_defs Let_def)
  next
    case (Inr initial_result)
    note r = this
    show ?thesis
    proof (cases "discover (internal_links initial_result) []")
      case (Inl ex)
      with k r show ?thesis
        by (simp add: crawl_vitalik_blog_def effect_defs Let_def)
    next
      case (Inr article_urls)
      let ?st = "\<lparr>provider = ''openai/gpt-4'', api_token = api_key,
                   chunk_token_threshold = 3000\<rparr>"
      let ?w3 = "print (Found (length article_urls))
          (emit (Arun (site @ ''/'') index_config) (mkdir processed_dir (mkdir raw_dir w)))"
      obtain evs where "trace (crawl_loop loads ?st (steps env) 0 article_urls ?w3) = trace ?w3 @ evs"
        using crawl_loop_trace by blast
      with k r Inr show ?thesis
        by (simp add: crawl_vitalik_blog_def effect_defs Let_def)
    qed
  qed
qed

lemma crawl_no_articles:
  assumes "truthy (getenv env ''OPENAI_API_KEY'')" "initial env = Inr r" "internal_links r = []"
  shows "crawl_vitalik_blog loads env w =
    (None, w\<lparr>trace := trace w @ [Mkdir raw_dir, Mkdir processed_dir,
       Arun (site @ ''/'') index_config, Print (Found 0), Print Crawling_completed]\<rparr>)"
proof -
  from truthy_Some [OF assms(1)] obtain api_key
    where k: "getenv env ''OPENAI_API_KEY'' = Some api_key" "api_key \<noteq> []"
    by blast
  with assms(2,3) show ?thesis
    by (simp add: crawl_vitalik_blog_def effect_defs Let_def)
qed

lemma main_without_key:
  assumes "\<not> truthy (getenv env ''OPENAI_API_KEY'')"
  shows "main loads env w = (1, w\<lparr>trace := trace w @ [Print Key_not_set, Print Please_set]\<rparr>)"
  using assms by (simp add: main_def effect_defs)

lemma main_with_key:
  assumes "truthy (getenv env ''OPENAI_API_KEY'')"
  shows "snd (main loads env w) = snd (crawl_vitalik_blog loads env w)"
  using assms by (simp add: main_def split: prod.splits option.splits)

lemma unpaced_steps_simps:
  "unpaced_steps 0 = sample_step (Inr failed_result)"
  "unpaced_steps (Suc 0) = sample_step (Inl (EngineError ''connection reset''))"
  "unpaced_steps (Suc (Suc 0)) = sample_step (Inr (sample_result None))"
  by (simp_all add: unpaced_steps_def)

lemma failed_result_fields:
  "\<not> success failed_result" "error_message failed_result = ''timeout''"
  by (simp_all add: failed_result_def)

subsection \<open>Which files a pass touches\<close>

lemma raw_filename_inj: "raw_filename a = raw_filename b \<longleftrightarrow> a = b"
  by (simp add: path_defs)

lemma processed_filename_inj: "processed_filename a = processed_filename b \<longleftrightarrow> a = b"
  by (simp add: path_defs)

lemma processed_neq_raw: "processed_filename a \<noteq> raw_filename b"
  using raw_neq_processed [of b a] by (rule not_sym)

lemma strftime_microsecond: "strftime (d\<lparr>microsecond := m\<rparr>) = strftime d"
  by (simp add: strftime_def)

text \<open>A pass touches no file but the two that carry its own timestamp.\<close>

lemma pass_frame:
  assumes "p \<noteq> raw_filename (strftime (now e))" "p \<noteq> processed_filename (strftime (now e))"
  shows "files (process_article loads st e url w) p = files w p
       \<and> filter (\<lambda>pc. fst pc = p) (writes (since w (process_article loads st e url w))) = []"
proof (cases rule: article_cases [where e = e and loads = loads])
  case (raises ex)
  then show ?thesis by (simp add: article_raises)
next
  case (failed result)
  then show ?thesis by (simp add: article_fetch_failed)
next
  case (not_extracted result)
  with assms show ?thesis by (auto simp add: article_not_extracted)
next
  case (decode_error result s msg)
  with assms show ?thesis by (auto simp add: article_decode_error)
next
  case (extracted result s d)
  with assms show ?thesis by (auto simp add: article_extracted)
next
  case (not_a_dict result s v)
  with assms show ?thesis by (auto simp add: article_not_a_dict)
qed

lemma raw_after_pass:
  assumes "arun_result e = Inr result" "success result"
  shows "files (process_article loads st e url w) (raw_filename (strftime (now e))) =
           Some (raw_content url result (strftime (now e)))
       \<and> filter (\<lambda>pc. fst pc = raw_filename (strftime (now e)))
           (writes (since w (process_article loads st e url w))) =
           [(raw_filename (strftime (now e)), raw_content url result (strftime (now e)))]"
proof (cases rule: article_cases [where e = e and loads = loads])
  case (raises ex)
  with assms show ?thesis by simp
next
  case (failed r)
  with assms show ?thesis by simp
next
  case (not_extracted r)
  with assms have "r = result" by simp
  with not_extracted show ?thesis by (simp add: article_not_extracted)
next
  case (decode_error r s msg)
  with assms have "r = result" by simp
  with decode_error show ?thesis by (simp add: article_decode_error)
next
  case (extracted r s d)
  with assms have "r = result" by simp
  with extracted show ?thesis
    by (simp add: article_extracted raw_neq_processed processed_neq_raw)
next
  case (not_a_dict r s v)
  with assms have "r = result" by simp
  with not_a_dict show ?thesis by (simp add: article_not_a_dict)
qed

lemma processed_after_pass:
  assumes "arun_result e = Inr result" "success result" "extracted_content result = Some s"
    "s \<noteq> []" "loads s = Inr (JObj d)"
  shows "files (process_article loads st e url w) (processed_filename (strftime (now e))) =
           Some (JObj (dict_update d (required_fields url result (strftime (now e)))))
       \<and> filter (\<lambda>pc. fst pc = processed_filename (strftime (now e)))
           (writes (since w (process_article loads st e url w))) =
           [(processed_filename (strftime (now e)),
             JObj (dict_update d (required_fields url result (strftime (now e)))))]"
  using assms by (simp add: article_extracted raw_neq_processed processed_neq_raw)

lemma since_crawl_loop_Cons:
  "since w (crawl_loop loads st env i (url # urls) w) =
     since w (process_article loads st (env i) url w) @
     since (process_article loads st (env i) url w)
       (crawl_loop loads st env (Suc i) urls (process_article loads st (env i) url w))"
proof -
  obtain evs1 where 1: "trace (process_article loads st (env i) url w) = trace w @ evs1"
    using process_article_trace by blast
  obtain evs2 where 2: "trace (crawl_loop loads st env (Suc i) urls (process_article loads st (env i) url w))
      = trace (process_article loads st (env i) url w) @ evs2"
    using crawl_loop_trace by blast
  from 1 2 show ?thesis by (simp add: since_def)
qed

lemma loop_frame:
  assumes "\<forall>k < length urls. strftime (now (env (i + k))) \<noteq> t"
    and "p = raw_filename t \<or> p = processed_filename t"
  shows "files (crawl_loop loads st env i urls w) p = files w p
       \<and> filter (\<lambda>pc. fst pc = p) (writes (since w (crawl_loop loads st env i urls w))) = []"
  using assms
proof (induction urls arbitrary: i w)
  case Nil
  then show ?case by (simp add: since_def)
next
  case (Cons url urls)
  let ?w1 = "process_article loads st (env i) url w"
  from Cons.prems(1) have here: "strftime (now (env i)) \<noteq> t" by force
  from Cons.prems(1) have "\<forall>k < length urls. strftime (now (env (Suc i + k))) \<noteq> t" by force
  from Cons.IH [OF this Cons.prems(2)]
  have rest: "files (crawl_loop loads st env (Suc i) urls ?w1) p = files ?w1 p"
    "filter (\<lambda>pc. fst pc = p) (writes (since ?w1 (crawl_loop loads st env (Suc i) urls ?w1))) = []"
    by simp_all
  from here Cons.prems(2) have "p \<noteq> raw_filename (strftime (now (env i)))"
    "p \<noteq> processed_filename (strftime (now (env i)))"
    by (auto simp: raw_filename_inj processed_filename_inj raw_neq_processed processed_neq_raw)
  from pass_frame [OF this]
  have first: "files ?w1 p = files w p"
    "filter (\<lambda>pc. fst pc = p) (writes (since w ?w1)) = []"
    by simp_all
  have "files (crawl_loop loads st env i (url # urls) w) p = files w p"
    using first rest by simp
  moreover have "filter (\<lambda>pc. fst pc = p)
      (writes (since w (crawl_loop loads st env i (url # urls) w))) = []"
    unfolding since_crawl_loop_Cons using first rest by (simp add: writes_append)
  ultimately show ?case by (rule conjI)
qed


text \<open>
  A file that one pass of the loop writes, and whose timestamp no other pass shares, is
  written once in the whole loop and is there at the end.
\<close>

lemma kept_until_end:
  assumes "j < length urls"
    and "\<forall>k < length urls. k \<noteq> j \<longrightarrow> strftime (now (env (i + k))) \<noteq> t"
    and "p = raw_filename t \<or> p = processed_filename t"
    and "\<And>w. files (process_article loads st (env (i + j)) (urls ! j) w) p = Some c
           \<and> filter (\<lambda>pc. fst pc = p)
               (writes (since w (process_article loads st (env (i + j)) (urls ! j) w))) = [(p, c)]"
  shows "files (crawl_loop loads st env i urls w) p = Some c
       \<and> filter (\<lambda>pc. fst pc = p) (writes (since w (crawl_loop loads st env i urls w))) = [(p, c)]"
  using assms
proof (induction urls arbitrary: i j w)
  case Nil
  then show ?case by simp
next
  case (Cons url urls)
  let ?w1 = "process_article loads st (env i) url w"
  let ?w2 = "crawl_loop loads st env (Suc i) urls ?w1"
  have split: "since w (crawl_loop loads st env i (url # urls) w) = since w ?w1 @ since ?w1 ?w2"
    by (rule since_crawl_loop_Cons)
  show ?case
  proof (cases j)
    case 0
    from Cons.prems(4) [of w] 0
    have first: "files ?w1 p = Some c"
      "filter (\<lambda>pc. fst pc = p) (writes (since w ?w1)) = [(p, c)]"
      by simp_all
    from Cons.prems(2) 0 have "\<forall>k < length urls. strftime (now (env (Suc i + k))) \<noteq> t"
      by force
    from loop_frame [OF this Cons.prems(3)]
    have rest: "files ?w2 p = files ?w1 p"
      "filter (\<lambda>pc. fst pc = p) (writes (since ?w1 ?w2)) = []"
      by simp_all
    have "files (crawl_loop loads st env i (url # urls) w) p = Some c"
      using first rest by simp
    moreover have "filter (\<lambda>pc. fst pc = p)
        (writes (since w (crawl_loop loads st env i (url # urls) w))) = [(p, c)]"
      unfolding split using first rest by (simp add: writes_append)
    ultimately show ?thesis by (rule conjI)
  next
    case (Suc j')
    from Cons.prems(2) Suc have "strftime (now (env i)) \<noteq> t" by force
    with Cons.prems(3) have "p \<noteq> raw_filename (strftime (now (env i)))"
      "p \<noteq> processed_filename (strftime (now (env i)))"
      by (auto simp: raw_filename_inj processed_filename_inj raw_neq_processed processed_neq_raw)
    from pass_frame [OF this]
    have first: "filter (\<lambda>pc. fst pc = p) (writes (since w ?w1)) = []"
      by simp
    from Cons.prems(1) Suc have 1: "j' < length urls" by simp
    from Cons.prems(2) Suc
    have 2: "\<forall>k < length urls. k \<noteq> j' \<longrightarrow> strftime (now (env (Suc i + k))) \<noteq> t"
      by force
    from Cons.prems(4) Suc
    have 4: "files (process_article loads st (env (Suc i + j')) (urls ! j') w) p = Some c
           \<and> filter (\<lambda>pc. fst pc = p)
               (writes (since w (process_article loads st (env (Suc i + j')) (urls ! j') w))) = [(p, c)]"
      for w by simp
    from Cons.IH [OF 1 2 Cons.prems(3) 4]
    have rest: "files ?w2 p = Some c"
      "filter (\<lambda>pc. fst pc = p) (writes (since ?w1 ?w2)) = [(p, c)]"
      by simp_all
    have "files (crawl_loop loads st env i (url # urls) w) p = Some c"
      using rest by simp
    moreover have "filter (\<lambda>pc. fst pc = p)
        (writes (since w (crawl_loop loads st env i (url # urls) w))) = [(p, c)]"
      unfolding split using first rest by (simp add: writes_append)
    ultimately show ?thesis by (rule conjI)
  qed
qed


lemma same_second_steps_simps:
  "arun_result (same_second_steps i) = Inr (sample_result (Some ''[{}]''))"
  "strftime (now (same_second_steps i)) = ''20240102_030405''"
  by (simp_all add: same_second_steps_def sample_step_def sample_now_def strftime_def
      pad2_def pad4_def digit_def split: nat.splits)

lemma hourly_steps_simps:
  "arun_result (hourly_steps 0) = Inr (sample_result (Some record_text))"
  "strftime (now (hourly_steps 0)) = ''20240102_030405''"
  "strftime (now (hourly_steps (Suc k))) = ''20240102_040405''"
  by (simp_all add: hourly_steps_def sample_step_def sample_now_def strftime_def
      pad2_def pad4_def digit_def)

text \<open>No pass removes a file.\<close>

lemma pass_keeps_files:
  assumes "p \<in> dom (files w)"
  shows "p \<in> dom (files (process_article loads st e url w))"
proof (cases rule: article_cases [where e = e and loads = loads])
  case (raises ex)
  with assms show ?thesis by (simp add: article_raises)
next
  case (failed result)
  with assms show ?thesis by (simp add: article_fetch_failed)
next
  case (not_extracted result)
  with assms show ?thesis by (auto simp add: article_not_extracted)
next
  case (decode_error result s msg)
  with assms show ?thesis by (auto simp add: article_decode_error)
next
  case (extracted result s d)
  with assms show ?thesis by (auto simp add: article_extracted)
next
  case (not_a_dict result s v)
  with assms show ?thesis by (auto simp add: article_not_a_dict)
qed

lemma loop_keeps_files:
  "p \<in> dom (files w) \<Longrightarrow> p \<in> dom (files (crawl_loop loads st env i urls w))"
  by (induction urls arbitrary: i w) (simp_all add: pass_keeps_files)

lemma raw_exists_after_loop:
  assumes "j < length urls" "arun_result (env (i + j)) = Inr result" "success result"
  shows "raw_filename (strftime (now (env (i + j)))) \<in> dom (files (crawl_loop loads st env i urls w))"
  using assms
proof (induction urls arbitrary: i j w)
  case Nil
  then show ?case by simp
next
  case (Cons url urls)
  show ?case
  proof (cases j)
    case 0
    with Cons.prems have "arun_result (env i) = Inr result" by simp
    from raw_after_pass [OF this Cons.prems(3)]
    have "raw_filename (strftime (now (env i))) \<in>
        dom (files (process_article loads st (env i) url w))"
      by blast
    from loop_keeps_files [OF this] 0 show ?thesis by simp
  next
    case (Suc j')
    with Cons.prems have "j' < length urls" "arun_result (env (Suc i + j')) = Inr result"
      by simp_all
    from Cons.IH [OF this Cons.prems(3)] Suc show ?thesis by simp
  qed
qed

section \<open>The claims\<close>

text \<open>
  C1. When the engine's result for an article has \<open>success\<close> set, the pass over that article
  writes exactly one file below the raw directory, in whatever world it starts. The name of
  the file is \<open>raw_<timestamp>.json\<close> and it holds the url, the markup, the plain-text form,
  the metadata mapping and the timestamp. Nothing is assumed about the extractor's output:
  the write happens whether it is a record, empty, or not decodable. After the pass the
  file holds that content, and at the end of the run a file of that name exists.
\<close>

theorem raw_snapshot_written:
  assumes "j < length urls" and "arun_result (env j) = Inr result" and "success result"
  shows "let t = strftime (now (env j));
             snapshot = JObj [(''url'', JStr (urls ! j)), (''html'', JStr (html result)),
                              (''markdown'', JStr (markdown result)),
                              (''metadata'', JObj (metadata result)),
                              (''crawl_date'', JStr t)]
         in (\<forall>w. writes_in raw_dir (since w (process_article loads st (env j) (urls ! j) w)) =
                  [(raw_filename t, snapshot)]
              \<and> files (process_article loads st (env j) (urls ! j) w) (raw_filename t) =
                  Some snapshot)
          \<and> raw_filename t \<in> dom (files (crawl_loop loads st env 0 urls w0))"
proof -
  let ?t = "strftime (now (env j))"
  let ?url = "urls ! j"
  have pass: "writes_in raw_dir (since w (process_article loads st (env j) ?url w)) =
        [(raw_filename ?t, raw_content ?url result ?t)]
      \<and> files (process_article loads st (env j) ?url w) (raw_filename ?t) =
        Some (raw_content ?url result ?t)" for w
  proof (cases rule: article_cases [where e = "env j" and loads = loads])
    case (raises ex)
    with assms show ?thesis by simp
  next
    case (failed r)
    with assms show ?thesis by simp
  next
    case (not_extracted r)
    with assms have "r = result" by simp
    with not_extracted show ?thesis
      by (simp add: article_not_extracted writes_in_def raw_in_raw_dir)
  next
    case (decode_error r s msg)
    with assms have "r = result" by simp
    with decode_error show ?thesis
      by (simp add: article_decode_error writes_in_def raw_in_raw_dir)
  next
    case (extracted r s d)
    with assms have "r = result" by simp
    with extracted show ?thesis
      by (simp add: article_extracted writes_in_def raw_in_raw_dir
          processed_not_in_raw_dir raw_neq_processed)
  next
    case (not_a_dict r s v)
    with assms have "r = result" by simp
    with not_a_dict show ?thesis
      by (simp add: article_not_a_dict writes_in_def raw_in_raw_dir)
  qed
  from assms have "arun_result (env (0 + j)) = Inr result" by simp
  from raw_exists_after_loop [where env = env and i = 0 and j = j, OF assms(1) this assms(3)]
  have "raw_filename ?t \<in> dom (files (crawl_loop loads st env 0 urls w0))"
    by simp
  with pass show ?thesis
    by (simp add: Let_def raw_content_def)
qed

theorem raw_snapshot_written_witness:
  "success (sample_result (Some ''[{}]''))
   \<and> writes_in raw_dir (since world0
        (process_article sample_loads sample_strategy
           (sample_step (Inr (sample_result (Some ''[{}]'')))) url_a world0)) =
       [(''vitalik_blog_data/raw/raw_20240102_030405.json'',
         JObj [(''url'', JStr url_a), (''html'', JStr ''<h1>A</h1>''),
               (''markdown'', JStr ''# A''),
               (''metadata'', JObj [(''title'', JStr ''A'')]),
               (''crawl_date'', JStr ''20240102_030405'')])]
   \<and> ''vitalik_blog_data/raw/raw_20240102_030405.json'' \<in>
       dom (files (crawl_loop sample_loads sample_strategy
              (\<lambda>i. sample_step (Inr (sample_result (Some ''[{}]'')))) 0 [url_a, url_b] world0))"
proof -
  have 1: "(0::nat) < length [url_a, url_b]"
    by simp
  have 2: "arun_result (sample_step (Inr (sample_result (Some ''[{}]'')))) =
      Inr (sample_result (Some ''[{}]''))"
    by (simp add: sample_step_fields)
  have 3: "success (sample_result (Some ''[{}]''))"
    by (simp add: sample_result_fields)
  note T = raw_snapshot_written [where env = "\<lambda>i. sample_step (Inr (sample_result (Some ''[{}]'')))"
      and j = 0 and urls = "[url_a, url_b]" and loads = sample_loads and st = sample_strategy
      and ?w0.0 = world0, OF 1 2 3, unfolded Let_def]
  note pass = T [THEN conjunct1, THEN spec, of world0, THEN conjunct1]
  note run = T [THEN conjunct2]
  have a: "writes_in raw_dir (since world0
        (process_article sample_loads sample_strategy
           (sample_step (Inr (sample_result (Some ''[{}]'')))) url_a world0)) =
       [(''vitalik_blog_data/raw/raw_20240102_030405.json'',
         JObj [(''url'', JStr url_a), (''html'', JStr ''<h1>A</h1>''),
               (''markdown'', JStr ''# A''),
               (''metadata'', JObj [(''title'', JStr ''A'')]),
               (''crawl_date'', JStr ''20240102_030405'')])]"
    using pass by (simp add: sample_step_fields sample_paths sample_result_fields)
  have b: "''vitalik_blog_data/raw/raw_20240102_030405.json'' \<in>
       dom (files (crawl_loop sample_loads sample_strategy
              (\<lambda>i. sample_step (Inr (sample_result (Some ''[{}]'')))) 0 [url_a, url_b] world0))"
    using run by (simp only: sample_step_fields sample_paths)
  from 3 a b show ?thesis by (intro conjI)
qed

text \<open>
  C2. When the extractor's output decodes to a record (a JSON object), the pass writes one
  file below the processed directory. In the record it holds, \<open>url\<close> is the article's URL,
  \<open>crawl_date\<close> the capture timestamp, \<open>title\<close> and \<open>date_published\<close> the \<open>title\<close> and
  \<open>date\<close> entries of the engine's metadata (the empty string when the metadata has none),
  whatever the extractor had put there; every other key has the extractor's value.
\<close>

theorem processed_record_fields:
  assumes "arun_result e = Inr result" and "success result"
    and "extracted_content result = Some s" and "s \<noteq> []" and "loads s = Inr (JObj d)"
  shows "let d' = dict_update d (required_fields url result (strftime (now e)));
             w' = process_article loads st e url w
         in writes_in processed_dir (since w w') =
              [(processed_filename (strftime (now e)), JObj d')]
          \<and> files w' (processed_filename (strftime (now e))) = Some (JObj d')
          \<and> map_of d' ''url'' = Some (JStr url)
          \<and> map_of d' ''crawl_date'' = Some (JStr (strftime (now e)))
          \<and> map_of d' ''title'' = Some (dict_get (metadata result) ''title'' (JStr ''''))
          \<and> map_of d' ''date_published'' = Some (dict_get (metadata result) ''date'' (JStr ''''))
          \<and> (\<forall>k. k \<notin> {''url'', ''crawl_date'', ''title'', ''date_published''}
                \<longrightarrow> map_of d' k = map_of d k)"
proof -
  let ?d = "dict_update d (required_fields url result (strftime (now e)))"
  have "writes_in processed_dir (since w (process_article loads st e url w)) =
      [(processed_filename (strftime (now e)), JObj ?d)]"
    using assms
    by (simp add: article_extracted writes_in_def processed_in_processed_dir
        raw_not_in_processed_dir)
  moreover have "files (process_article loads st e url w) (processed_filename (strftime (now e))) =
      Some (JObj ?d)"
    using assms by (simp add: article_extracted)
  moreover have "map_of ?d ''url'' = Some (JStr url)"
    "map_of ?d ''crawl_date'' = Some (JStr (strftime (now e)))"
    "map_of ?d ''title'' = Some (dict_get (metadata result) ''title'' (JStr ''''))"
    "map_of ?d ''date_published'' = Some (dict_get (metadata result) ''date'' (JStr ''''))"
    by (simp_all add: map_of_required_fields)
  moreover have "\<forall>k. k \<notin> {''url'', ''crawl_date'', ''title'', ''date_published''}
      \<longrightarrow> map_of ?d k = map_of d k"
    by (simp add: map_of_required_fields)
  ultimately show ?thesis by (simp add: Let_def)
qed

theorem processed_record_fields_witness:
  "sample_loads record_text = Inr (JObj [(''title'', JStr ''Guess''), (''summary'', JStr ''S'')])
   \<and> files (process_article sample_loads sample_strategy
        (sample_step (Inr (sample_result (Some record_text)))) url_a world0)
       ''vitalik_blog_data/processed/processed_20240102_030405.json'' =
     Some (JObj [(''title'', JStr ''A''), (''summary'', JStr ''S''), (''url'', JStr url_a),
                 (''crawl_date'', JStr ''20240102_030405''), (''date_published'', JStr '''')])"
proof -
  have 1: "arun_result (sample_step (Inr (sample_result (Some record_text)))) =
      Inr (sample_result (Some record_text))"
    by (simp add: sample_step_fields)
  have 2: "success (sample_result (Some record_text))"
    by (simp add: sample_result_fields)
  have 3: "extracted_content (sample_result (Some record_text)) = Some record_text"
    by (simp add: sample_result_fields)
  note 4 = record_text_nonempty
  note 5 = sample_loads_simps(1)
  from processed_record_fields [where loads = sample_loads and s = record_text
      and e = "sample_step (Inr (sample_result (Some record_text)))"
      and w = world0 and st = sample_strategy and url = url_a, OF 1 2 3 4 5] 5
  show ?thesis
    by (simp add: Let_def sample_step_fields sample_paths sample_record)
qed

text \<open>
  C3. When the engine's result for a URL has \<open>success\<close> unset, the pass over that URL prints
  the failure and does nothing else: no file is written and the files are as before. The
  loop goes on with the next URL, and every URL after it is still requested.
\<close>

theorem fetch_failure_skipped:
  assumes "arun_result (env i) = Inr result" and "\<not> success result"
  shows "let w' = process_article loads st (env i) url w
         in since w w' = [Print (Processing url), Arun url (article_config st),
                          Print (Failed_to_crawl url (error_message result))]
          \<and> writes (since w w') = []
          \<and> files w' = files w
          \<and> crawl_loop loads st env i (url # urls) w = crawl_loop loads st env (Suc i) urls w'
          \<and> requests (since w' (crawl_loop loads st env i (url # urls) w)) = urls"
  using assms by (simp add: Let_def article_fetch_failed crawl_loop_requests)

theorem fetch_failure_skipped_witness:
  "\<not> success failed_result
   \<and> writes (since world0 (process_article sample_loads sample_strategy
        (sample_step (Inr failed_result)) url_a world0)) = []
   \<and> requests (since (process_article sample_loads sample_strategy
        (sample_step (Inr failed_result)) url_a world0)
        (crawl_loop sample_loads sample_strategy (\<lambda>i. sample_step (Inr failed_result)) 0
           [url_a, url_b] world0)) = [url_b]"
proof -
  have 1: "arun_result (sample_step (Inr failed_result)) = Inr failed_result"
    by (simp add: sample_step_fields)
  have 2: "\<not> success failed_result"
    by (simp add: failed_result_def)
  from fetch_failure_skipped [where env = "\<lambda>i. sample_step (Inr failed_result)" and i = 0
      and loads = sample_loads and st = sample_strategy and url = url_a and w = world0
      and urls = "[url_b]", OF 1 2] 2
  show ?thesis
    by (simp add: Let_def)
qed

text \<open>
  C4. When the extractor's output is present and \<open>json.loads\<close> rejects it, the error is
  caught by the inner handler, which prints it together with the rejected text. The pass
  has written the raw file and writes no other file, it ends with the delay as a pass
  without error does, and the loop goes on with the next URL.
\<close>

theorem decode_error_isolated:
  assumes "arun_result (env i) = Inr result" and "success result"
    and "extracted_content result = Some s" and "s \<noteq> []" and "loads s = Inl msg"
  shows "let t = strftime (now (env i));
             w' = process_article loads st (env i) url w
         in since w w' =
              [Print (Processing url), Arun url (article_config st),
               Open_write (raw_filename t) (raw_content url result t),
               Print (Saved_raw (raw_filename t)),
               Print (Error_decoding msg), Print (Raw_extracted s),
               Print (Waiting (2 + random (env i))), Sleep (2 + random (env i))]
          \<and> writes_in processed_dir (since w w') = []
          \<and> writes_in raw_dir (since w w') = [(raw_filename t, raw_content url result t)]
          \<and> files w' = (files w)(raw_filename t \<mapsto> raw_content url result t)
          \<and> crawl_loop loads st env i (url # urls) w = crawl_loop loads st env (Suc i) urls w'
          \<and> requests (since w' (crawl_loop loads st env i (url # urls) w)) = urls"
  using assms
  by (simp add: Let_def article_decode_error crawl_loop_requests writes_in_def
      raw_in_raw_dir raw_not_in_processed_dir)

theorem decode_error_isolated_witness:
  "sample_loads ''not json'' = Inl ''Expecting value: line 1 column 1 (char 0)''
   \<and> writes (since world0 (process_article sample_loads sample_strategy
        (sample_step (Inr (sample_result (Some ''not json'')))) url_a world0)) =
       [(''vitalik_blog_data/raw/raw_20240102_030405.json'',
         raw_content url_a (sample_result (Some ''not json'')) ''20240102_030405'')]
   \<and> requests (since (process_article sample_loads sample_strategy
        (sample_step (Inr (sample_result (Some ''not json'')))) url_a world0)
        (crawl_loop sample_loads sample_strategy
           (\<lambda>i. sample_step (Inr (sample_result (Some ''not json'')))) 0
           [url_a, url_b] world0)) = [url_b]"
proof -
  have 1: "arun_result (sample_step (Inr (sample_result (Some ''not json'')))) =
      Inr (sample_result (Some ''not json''))"
    by (simp add: sample_step_fields)
  have 2: "success (sample_result (Some ''not json''))"
    by (simp add: sample_result_fields)
  have 3: "extracted_content (sample_result (Some ''not json'')) = Some ''not json''"
    by (simp add: sample_result_fields)
  have 4: "''not json'' \<noteq> []"
    by simp
  note 5 = sample_loads_simps(4)
  from decode_error_isolated [where env = "\<lambda>i. sample_step (Inr (sample_result (Some ''not json'')))"
      and i = 0 and loads = sample_loads and s = "''not json''" and st = sample_strategy
      and url = url_a and w = world0 and urls = "[url_b]", OF 1 2 3 4 5] 5
  show ?thesis
    by (simp add: Let_def sample_step_fields sample_paths)
qed

text \<open>
  C5. When link discovery returns, every URL of its list contains \<open>/posts/\<close> or
  \<open>/general/\<close> and begins with \<open>http\<close>. The list is, in order, the hrefs of the internal
  links that contain one of the two substrings, each one as it is when it begins with
  \<open>http\<close> and with \<open>https://vitalik.eth.limo\<close> in front of it otherwise.
\<close>

theorem discovered_urls_absolute:
  assumes "discover (internal_links r) [] = Inr article_urls"
  shows "(\<forall>u \<in> set article_urls.
            (contains u ''/posts/'' \<or> contains u ''/general/'') \<and> startswith u ''http'')
       \<and> article_urls =
           map (\<lambda>href. if startswith href ''http'' then href else ''https://vitalik.eth.limo'' @ href)
             (filter (\<lambda>href. contains href ''/posts/'' \<or> contains href ''/general/'')
                (map (\<lambda>l. the (map_of l ''href'')) (internal_links r)))"
proof -
  from discover_Inr [OF assms]
  have eq: "article_urls =
      map (\<lambda>href. if startswith href ''http'' then href else site @ href)
        (filter (\<lambda>href. contains href ''/posts/'' \<or> contains href ''/general/'')
           (map (\<lambda>l. the (map_of l ''href'')) (internal_links r)))"
    by simp
  have "\<forall>u \<in> set article_urls.
      (contains u ''/posts/'' \<or> contains u ''/general/'') \<and> startswith u ''http''"
    by (subst eq) (rule all_resolved_ok)
  then show ?thesis
    using eq [unfolded site_def] by (rule conjI)
qed

theorem discovered_urls_absolute_witness:
  "discover (internal_links index_page) [] = Inr [url_a, url_b]
   \<and> contains url_a ''/posts/'' \<and> startswith url_a ''http''
   \<and> contains url_b ''/general/'' \<and> startswith url_b ''http''"
proof -
  have c: "\<not> contains url_a ''/general/''" "\<not> contains url_b ''/posts/''"
    by (simp_all add: url_a_def url_b_def contains_def sublist_code)
  from discovered_urls_absolute [OF sample_discovery]
  have "\<forall>u \<in> set [url_a, url_b].
      (contains u ''/posts/'' \<or> contains u ''/general/'') \<and> startswith u ''http''"
    by (rule conjunct1)
  then have "(contains url_a ''/posts/'' \<or> contains url_a ''/general/'') \<and> startswith url_a ''http''"
    "(contains url_b ''/posts/'' \<or> contains url_b ''/general/'') \<and> startswith url_b ''http''"
    by simp_all
  with c sample_discovery show ?thesis by blast
qed

text \<open>
  C6. The claim is that the delay follows every pass of the loop. The delay follows a pass
  that reaches the end of the \<open>try\<close> block, and no other. In the run \<open>unpaced_run\<close> the first
  article's fetch is reported as failed and the second one's raises: the three requests
  follow one another with no delay between them, and the only delay of the run is the one
  after the third article.
\<close>

theorem failed_passes_not_delayed:
  "since world0 unpaced_run =
     [Print (Processing url_a), Arun url_a (article_config sample_strategy),
      Print (Failed_to_crawl url_a ''timeout''),
      Print (Processing url_b), Arun url_b (article_config sample_strategy),
      Print (Error_processing url_b (EngineError ''connection reset'')),
      Print (Traceback (EngineError ''connection reset'')),
      Print (Processing url_c), Arun url_c (article_config sample_strategy),
      Open_write ''vitalik_blog_data/raw/raw_20240102_030405.json''
        (raw_content url_c (sample_result None) ''20240102_030405''),
      Print (Saved_raw ''vitalik_blog_data/raw/raw_20240102_030405.json''),
      Print (Waiting (5 / 2)), Sleep (5 / 2)]
   \<and> sleeps (since world0 unpaced_run) = [5 / 2]"
proof -
  have 1: "process_article sample_loads sample_strategy (unpaced_steps 0) url_a world0 =
      world0\<lparr>trace := trace world0 @ [Print (Processing url_a),
        Arun url_a (article_config sample_strategy), Print (Failed_to_crawl url_a ''timeout'')]\<rparr>"
    (is "_ = ?w1")
    by (simp add: unpaced_steps_simps article_fetch_failed [where result = failed_result]
        sample_step_fields failed_result_fields)
  have 2: "process_article sample_loads sample_strategy (unpaced_steps (Suc 0)) url_b ?w1 =
      ?w1\<lparr>trace := trace ?w1 @ [Print (Processing url_b),
        Arun url_b (article_config sample_strategy),
        Print (Error_processing url_b (EngineError ''connection reset'')),
        Print (Traceback (EngineError ''connection reset''))]\<rparr>"
    (is "_ = ?w2")
    by (simp only: unpaced_steps_simps article_raises [where ex = "EngineError ''connection reset''"]
        sample_step_fields)
  have 3: "process_article sample_loads sample_strategy (unpaced_steps (Suc (Suc 0))) url_c ?w2 =
      ?w2\<lparr>files := (files ?w2)(raw_filename ''20240102_030405'' \<mapsto>
          raw_content url_c (sample_result None) ''20240102_030405''),
        trace := trace ?w2 @ [Print (Processing url_c),
          Arun url_c (article_config sample_strategy),
          Open_write (raw_filename ''20240102_030405'')
            (raw_content url_c (sample_result None) ''20240102_030405''),
          Print (Saved_raw (raw_filename ''20240102_030405'')),
          Print (Waiting (2 + 1 / 2)), Sleep (2 + 1 / 2)]\<rparr>"
    (is "_ = ?w3")
    using article_not_extracted [where e = "unpaced_steps (Suc (Suc 0))"
        and result = "sample_result None" and loads = sample_loads and st = sample_strategy
        and url = url_c and w = ?w2]
    by (simp add: unpaced_steps_simps sample_step_fields sample_result_fields)
  have run: "unpaced_run = ?w3"
    by (simp only: unpaced_run_def crawl_loop.simps 1 2 3)
  show ?thesis
    unfolding run by (simp add: since_def world0_def sample_paths)
qed

text \<open>
  C7. When \<open>OPENAI_API_KEY\<close> is missing from the environment (or empty), the process prints
  the two lines of the main guard and ends with status 1: nothing is requested from the
  engine, no directory is created and no file is written. When it is there, the first two
  effects of the run are the creation of the raw and the processed directory, so whatever
  is written is written after both.
\<close>

theorem credential_gate:
  "(\<not> truthy (getenv env ''OPENAI_API_KEY'') \<longrightarrow>
       fst (main loads env w) = 1
     \<and> since w (snd (main loads env w)) = [Print Key_not_set, Print Please_set]
     \<and> requests (since w (snd (main loads env w))) = []
     \<and> mkdirs (since w (snd (main loads env w))) = []
     \<and> writes (since w (snd (main loads env w))) = []
     \<and> files (snd (main loads env w)) = files w)
   \<and> (truthy (getenv env ''OPENAI_API_KEY'') \<longrightarrow>
       take 2 (since w (snd (main loads env w))) = [Mkdir raw_dir, Mkdir processed_dir])"
proof (intro conjI impI)
  assume k: "truthy (getenv env ''OPENAI_API_KEY'')"
  from crawl_started [OF k] obtain rest where
    "trace (snd (crawl_vitalik_blog loads env w)) =
       trace w @ Mkdir raw_dir # Mkdir processed_dir # rest"
    by blast
  with k show "take 2 (since w (snd (main loads env w))) = [Mkdir raw_dir, Mkdir processed_dir]"
    by (simp add: main_with_key since_def)
qed (simp_all add: main_without_key)

theorem credential_gate_witness:
  "fst (main sample_loads
          \<lparr>environ = [(''HOME'', ''/root'')], initial = Inr index_page,
           steps = (\<lambda>i. sample_step (Inr failed_result))\<rparr> world0) = 1
   \<and> trace (snd (main sample_loads
          \<lparr>environ = [(''HOME'', ''/root'')], initial = Inr index_page,
           steps = (\<lambda>i. sample_step (Inr failed_result))\<rparr> world0)) =
       [Print Key_not_set, Print Please_set]
   \<and> take 2 (trace (snd (main sample_loads
          \<lparr>environ = [(''OPENAI_API_KEY'', ''sk-1'')], initial = Inr index_page,
           steps = (\<lambda>i. sample_step (Inr failed_result))\<rparr> world0))) =
       [Mkdir ''vitalik_blog_data/raw'', Mkdir ''vitalik_blog_data/processed'']"
proof -
  let ?absent = "\<lparr>environ = [(''HOME'', ''/root'')], initial = Inr index_page,
           steps = (\<lambda>i. sample_step (Inr failed_result))\<rparr>"
  let ?present = "\<lparr>environ = [(''OPENAI_API_KEY'', ''sk-1'')], initial = Inr index_page,
           steps = (\<lambda>i. sample_step (Inr failed_result))\<rparr>"
  have 1: "\<not> truthy (getenv ?absent ''OPENAI_API_KEY'')"
    by (simp add: getenv_def)
  have 2: "truthy (getenv ?present ''OPENAI_API_KEY'')"
    by (simp add: getenv_def)
  have 3: "since world0 w = trace w" for w
    by (simp add: since_def world0_def)
  from credential_gate [of ?absent sample_loads world0] 1
  have a: "fst (main sample_loads ?absent world0) = 1"
    "since world0 (snd (main sample_loads ?absent world0)) = [Print Key_not_set, Print Please_set]"
    by blast+
  from credential_gate [of ?present sample_loads world0] 2
  have b: "take 2 (since world0 (snd (main sample_loads ?present world0))) =
      [Mkdir raw_dir, Mkdir processed_dir]"
    by blast
  from a b show ?thesis
    by (simp add: 3 raw_dir_def processed_dir_def base_dir_def path_join_def)
qed

text \<open>
  C8. The claim is that the files of two articles of one run are always distinct, so that
  no file is written twice. The name of a file is the capture timestamp, to the second, and
  nothing else. In the run \<open>same_second_run\<close> the two articles are captured within one
  second, with no delay between them: both raw snapshots go to the same file, and at the
  end it holds the second article, not the first.
\<close>

theorem same_second_overwrites:
  "url_a \<noteq> url_b
   \<and> map fst (writes (trace same_second_run)) =
       [''vitalik_blog_data/raw/raw_20240102_030405.json'',
        ''vitalik_blog_data/raw/raw_20240102_030405.json'']
   \<and> files same_second_run ''vitalik_blog_data/raw/raw_20240102_030405.json'' =
       Some (raw_content url_b (sample_result (Some ''[{}]'')) ''20240102_030405'')
   \<and> files same_second_run ''vitalik_blog_data/raw/raw_20240102_030405.json'' \<noteq>
       Some (raw_content url_a (sample_result (Some ''[{}]'')) ''20240102_030405'')
   \<and> sleeps (trace same_second_run) = []"
proof -
  have ne: "url_a \<noteq> url_b"
    by (simp add: url_a_def url_b_def)
  have pass: "process_article sample_loads sample_strategy (same_second_steps i) url w =
      w\<lparr>files := (files w)(raw_filename ''20240102_030405'' \<mapsto>
          raw_content url (sample_result (Some ''[{}]'')) ''20240102_030405''),
        trace := trace w @ [Print (Processing url), Arun url (article_config sample_strategy),
          Open_write (raw_filename ''20240102_030405'')
            (raw_content url (sample_result (Some ''[{}]'')) ''20240102_030405''),
          Print (Saved_raw (raw_filename ''20240102_030405'')),
          Print (Error_processing url (AttributeError ''update'')),
          Print (Traceback (AttributeError ''update''))]\<rparr>" for i url w
    using article_not_a_dict [where e = "same_second_steps i"
        and result = "sample_result (Some ''[{}]'')" and loads = sample_loads
        and s = "''[{}]''" and v = "JArr [JObj []]" and st = sample_strategy
        and url = url and w = w]
    by (simp add: same_second_steps_simps sample_result_fields sample_loads_simps)
  have run: "same_second_run =
      \<lparr>files = [raw_filename ''20240102_030405'' \<mapsto>
          raw_content url_b (sample_result (Some ''[{}]'')) ''20240102_030405''],
       trace = [Print (Processing url_a), Arun url_a (article_config sample_strategy),
          Open_write (raw_filename ''20240102_030405'')
            (raw_content url_a (sample_result (Some ''[{}]'')) ''20240102_030405''),
          Print (Saved_raw (raw_filename ''20240102_030405'')),
          Print (Error_processing url_a (AttributeError ''update'')),
          Print (Traceback (AttributeError ''update'')),
          Print (Processing url_b), Arun url_b (article_config sample_strategy),
          Open_write (raw_filename ''20240102_030405'')
            (raw_content url_b (sample_result (Some ''[{}]'')) ''20240102_030405''),
          Print (Saved_raw (raw_filename ''20240102_030405'')),
          Print (Error_processing url_b (AttributeError ''update'')),
          Print (Traceback (AttributeError ''update''))]\<rparr>"
    by (simp add: same_second_run_def pass world0_def)
  show ?thesis
    unfolding run using ne by (simp add: sample_paths raw_content_def)
qed

text \<open>
  C8, as amended. Take an article of a run whose fetch succeeds and whose capture
  timestamp, to the second, is shared by no other article of the run. Its raw snapshot is
  written once in the whole run and at the end of the run its file holds it; when the
  extractor's output is a record the same is true of its processed record. The file names
  are made of the timestamp to the second, the microseconds do not enter them, and they
  differ from the file names of every other article of the run.
\<close>

theorem snapshots_kept_when_timestamps_differ:
  assumes "j < length urls" and "arun_result (env j) = Inr result" and "success result"
    and "\<forall>k < length urls. k \<noteq> j \<longrightarrow> strftime (now (env k)) \<noteq> strftime (now (env j))"
  shows "let t = strftime (now (env j)); w' = crawl_loop loads st env 0 urls w
         in filter (\<lambda>pc. fst pc = raw_filename t) (writes (since w w')) =
              [(raw_filename t, raw_content (urls ! j) result t)]
          \<and> files w' (raw_filename t) = Some (raw_content (urls ! j) result t)
          \<and> (\<forall>s d. extracted_content result = Some s \<and> s \<noteq> [] \<and> loads s = Inr (JObj d) \<longrightarrow>
                filter (\<lambda>pc. fst pc = processed_filename t) (writes (since w w')) =
                  [(processed_filename t, JObj (dict_update d (required_fields (urls ! j) result t)))]
              \<and> files w' (processed_filename t) =
                  Some (JObj (dict_update d (required_fields (urls ! j) result t))))
          \<and> (\<forall>k < length urls. k \<noteq> j \<longrightarrow>
                raw_filename (strftime (now (env k))) \<noteq> raw_filename t
              \<and> processed_filename (strftime (now (env k))) \<noteq> processed_filename t)
          \<and> (\<forall>m. strftime ((now (env j))\<lparr>microsecond := m\<rparr>) = t)"
proof -
  let ?t = "strftime (now (env j))"
  let ?w' = "crawl_loop loads st env 0 urls w"
  from assms(4)
  have others: "\<forall>k < length urls. k \<noteq> j \<longrightarrow> strftime (now (env (0 + k))) \<noteq> ?t"
    by simp
  have raw: "filter (\<lambda>pc. fst pc = raw_filename ?t) (writes (since w ?w')) =
        [(raw_filename ?t, raw_content (urls ! j) result ?t)]
      \<and> files ?w' (raw_filename ?t) = Some (raw_content (urls ! j) result ?t)"
    using kept_until_end [where i = 0 and w = w, OF assms(1) others, of "raw_filename ?t"
        loads st "raw_content (urls ! j) result ?t"]
      raw_after_pass [OF assms(2,3)]
    by simp
  have processed: "filter (\<lambda>pc. fst pc = processed_filename ?t) (writes (since w ?w')) =
        [(processed_filename ?t, JObj (dict_update d (required_fields (urls ! j) result ?t)))]
      \<and> files ?w' (processed_filename ?t) =
        Some (JObj (dict_update d (required_fields (urls ! j) result ?t)))"
    if "extracted_content result = Some s" "s \<noteq> []" "loads s = Inr (JObj d)" for s d
    using kept_until_end [where i = 0 and w = w, OF assms(1) others, of "processed_filename ?t"
        loads st "JObj (dict_update d (required_fields (urls ! j) result ?t))"]
      processed_after_pass [where loads = loads and s = s and e = "env j", OF assms(2,3) that]
    by simp
  have names: "\<forall>k < length urls. k \<noteq> j \<longrightarrow>
        raw_filename (strftime (now (env k))) \<noteq> raw_filename ?t
      \<and> processed_filename (strftime (now (env k))) \<noteq> processed_filename ?t"
    using assms(4) by (simp add: raw_filename_inj processed_filename_inj)
  have micro: "\<forall>m. strftime ((now (env j))\<lparr>microsecond := m\<rparr>) = ?t"
    by (simp add: strftime_microsecond)
  from raw processed names micro show ?thesis
    unfolding Let_def by blast
qed

theorem snapshots_kept_when_timestamps_differ_witness:
  "strftime (now (hourly_steps 1)) \<noteq> strftime (now (hourly_steps 0))
   \<and> files (crawl_loop sample_loads sample_strategy hourly_steps 0 [url_a, url_b] world0)
       ''vitalik_blog_data/raw/raw_20240102_030405.json'' =
     Some (raw_content url_a (sample_result (Some record_text)) ''20240102_030405'')
   \<and> files (crawl_loop sample_loads sample_strategy hourly_steps 0 [url_a, url_b] world0)
       ''vitalik_blog_data/processed/processed_20240102_030405.json'' =
     Some (JObj [(''title'', JStr ''A''), (''summary'', JStr ''S''), (''url'', JStr url_a),
                 (''crawl_date'', JStr ''20240102_030405''), (''date_published'', JStr '''')])"
proof -
  have 1: "(0::nat) < length [url_a, url_b]"
    by simp
  note 2 = hourly_steps_simps(1)
  have 3: "success (sample_result (Some record_text))"
    by (simp add: sample_result_fields)
  have 4: "\<forall>k < length [url_a, url_b]. k \<noteq> 0 \<longrightarrow>
      strftime (now (hourly_steps k)) \<noteq> strftime (now (hourly_steps 0))"
  proof (intro allI impI)
    fix k :: nat
    assume "k < length [url_a, url_b]" "k \<noteq> 0"
    then obtain k' where "k = Suc k'" by (cases k) auto
    then show "strftime (now (hourly_steps k)) \<noteq> strftime (now (hourly_steps 0))"
      by (simp add: hourly_steps_simps)
  qed
  have 5: "extracted_content (sample_result (Some record_text)) = Some record_text
      \<and> record_text \<noteq> []
      \<and> sample_loads record_text = Inr (JObj [(''title'', JStr ''Guess''), (''summary'', JStr ''S'')])"
    by (simp add: sample_result_fields record_text_nonempty sample_loads_simps)
  note T = snapshots_kept_when_timestamps_differ [where env = hourly_steps and j = 0
      and urls = "[url_a, url_b]" and loads = sample_loads and st = sample_strategy
      and w = world0, OF 1 2 3 4, unfolded Let_def hourly_steps_simps(2)]
  note raw = T [THEN conjunct2, THEN conjunct1]
  note processed = T [THEN conjunct2, THEN conjunct2, THEN conjunct1, THEN spec, THEN spec,
      THEN mp, OF 5, THEN conjunct2]
  have a: "files (crawl_loop sample_loads sample_strategy hourly_steps 0 [url_a, url_b] world0)
       ''vitalik_blog_data/raw/raw_20240102_030405.json'' =
     Some (raw_content url_a (sample_result (Some record_text)) ''20240102_030405'')"
    using raw by (simp only: sample_paths nth_Cons_0)
  have b: "files (crawl_loop sample_loads sample_strategy hourly_steps 0 [url_a, url_b] world0)
       ''vitalik_blog_data/processed/processed_20240102_030405.json'' =
     Some (JObj [(''title'', JStr ''A''), (''summary'', JStr ''S''), (''url'', JStr url_a),
                 (''crawl_date'', JStr ''20240102_030405''), (''date_published'', JStr '''')])"
    using processed by (simp only: sample_paths nth_Cons_0 sample_record)
  have c: "strftime (now (hourly_steps 1)) \<noteq> strftime (now (hourly_steps 0))"
    using 4 by simp
  from c a b show ?thesis by (intro conjI)
qed

text \<open>
  C9. When the extractor's output decodes to a value that is not a record (an array, a
  number), the merge of line 115 raises. The error leaves the inner \<open>try\<close>, whose handler
  is for decode errors only, and reaches the handler of the pass, which prints it. The pass
  has written the raw file and writes no other file, and the loop goes on with the next URL.
\<close>

theorem non_record_payload_isolated:
  assumes "arun_result (env i) = Inr result" and "success result"
    and "extracted_content result = Some s" and "s \<noteq> []" and "loads s = Inr v"
    and "\<forall>d. v \<noteq> JObj d"
  shows "let t = strftime (now (env i));
             w' = process_article loads st (env i) url w
         in since w w' =
              [Print (Processing url), Arun url (article_config st),
               Open_write (raw_filename t) (raw_content url result t),
               Print (Saved_raw (raw_filename t)),
               Print (Error_processing url (AttributeError ''update'')),
               Print (Traceback (AttributeError ''update''))]
          \<and> writes_in processed_dir (since w w') = []
          \<and> files w' = (files w)(raw_filename t \<mapsto> raw_content url result t)
          \<and> crawl_loop loads st env i (url # urls) w = crawl_loop loads st env (Suc i) urls w'
          \<and> requests (since w' (crawl_loop loads st env i (url # urls) w)) = urls"
  using assms
  by (simp add: Let_def article_not_a_dict crawl_loop_requests writes_in_def
      raw_not_in_processed_dir)

theorem non_record_payload_isolated_witness:
  "sample_loads ''[{}]'' = Inr (JArr [JObj []]) \<and> (\<forall>d. JArr [JObj []] \<noteq> JObj d)
   \<and> writes (since world0 (process_article sample_loads sample_strategy
        (sample_step (Inr (sample_result (Some ''[{}]'')))) url_a world0)) =
       [(''vitalik_blog_data/raw/raw_20240102_030405.json'',
         raw_content url_a (sample_result (Some ''[{}]'')) ''20240102_030405'')]
   \<and> requests (since (process_article sample_loads sample_strategy
        (sample_step (Inr (sample_result (Some ''[{}]'')))) url_a world0)
        (crawl_loop sample_loads sample_strategy
           (\<lambda>i. sample_step (Inr (sample_result (Some ''[{}]'')))) 0
           [url_a, url_b] world0)) = [url_b]"
proof -
  have 1: "arun_result (sample_step (Inr (sample_result (Some ''[{}]'')))) =
      Inr (sample_result (Some ''[{}]''))"
    by (simp add: sample_step_fields)
  have 2: "success (sample_result (Some ''[{}]''))"
    by (simp add: sample_result_fields)
  have 3: "extracted_content (sample_result (Some ''[{}]'')) = Some ''[{}]''"
    by (simp add: sample_result_fields)
  have 4: "''[{}]'' \<noteq> []"
    by simp
  note 5 = sample_loads_simps(2)
  have 6: "\<forall>d. JArr [JObj []] \<noteq> JObj d"
    by simp
  from non_record_payload_isolated [where env = "\<lambda>i. sample_step (Inr (sample_result (Some ''[{}]'')))"
      and i = 0 and loads = sample_loads and s = "''[{}]''" and st = sample_strategy
      and url = url_a and w = world0 and urls = "[url_b]", OF 1 2 3 4 5 6] 5 6
  show ?thesis
    by (simp add: Let_def sample_step_fields sample_paths)
qed

text \<open>
  C10. Link discovery reads the entry \<open>internal\<close> of the index page's links and nothing
  else: two results with the same entry give the same list, whatever the engine has put
  under \<open>external\<close> or any other key, and every URL of the list comes from the href of one
  of the internal links. When there are no internal links (the entry is missing or empty),
  the list is empty: the run requests the index page only, reports 0 articles, writes
  nothing and ends normally.
\<close>

theorem internal_links_only:
  "(map_of (links r) ''internal'' = map_of (links r') ''internal'' \<longrightarrow>
       discover (internal_links r) [] = discover (internal_links r') [])
   \<and> (discover (internal_links r) [] = Inr article_urls \<longrightarrow>
       (\<forall>u \<in> set article_urls. \<exists>l \<in> set (internal_links r). \<exists>href.
          map_of l ''href'' = Some href \<and> (u = href \<or> u = site @ href)))
   \<and> (truthy (getenv env ''OPENAI_API_KEY'') \<and> initial env = Inr r
        \<and> (map_of (links r) ''internal'' = None \<or> map_of (links r) ''internal'' = Some []) \<longrightarrow>
       discover (internal_links r) [] = Inr []
     \<and> main loads env w =
         (0, w\<lparr>trace := trace w @ [Mkdir raw_dir, Mkdir processed_dir,
                 Arun (site @ ''/'') index_config, Print (Found 0),
                 Print Crawling_completed]\<rparr>))"
proof (intro conjI impI ballI)
  assume "map_of (links r) ''internal'' = map_of (links r') ''internal''"
  then show "discover (internal_links r) [] = discover (internal_links r') []"
    by (simp add: internal_links_def)
next
  fix u
  assume "discover (internal_links r) [] = Inr article_urls" "u \<in> set article_urls"
  from discover_from_link [OF this]
  show "\<exists>l \<in> set (internal_links r). \<exists>href.
          map_of l ''href'' = Some href \<and> (u = href \<or> u = site @ href)"
    by auto
next
  assume a: "truthy (getenv env ''OPENAI_API_KEY'') \<and> initial env = Inr r
        \<and> (map_of (links r) ''internal'' = None \<or> map_of (links r) ''internal'' = Some [])"
  then have e: "internal_links r = []"
    by (auto simp: internal_links_def)
  then show "discover (internal_links r) [] = Inr []" by simp
  from a e show "main loads env w =
         (0, w\<lparr>trace := trace w @ [Mkdir raw_dir, Mkdir processed_dir,
                 Arun (site @ ''/'') index_config, Print (Found 0),
                 Print Crawling_completed]\<rparr>)"
    by (simp add: main_def crawl_no_articles)
qed


theorem internal_links_only_witness:
  "discover (internal_links
      (index_page\<lparr>links := (''external'', [[(''href'', ''/posts/z'')]]) # links index_page\<rparr>)) [] =
     Inr [url_a, url_b]
   \<and> (\<exists>l \<in> set (internal_links index_page). \<exists>href.
         map_of l ''href'' = Some href \<and> (url_a = href \<or> url_a = site @ href))
   \<and> main sample_loads
        \<lparr>environ = [(''OPENAI_API_KEY'', ''sk-1'')], initial = Inr failed_result,
         steps = (\<lambda>i. sample_step (Inr failed_result))\<rparr> world0 =
       (0, \<lparr>files = Map.empty,
            trace = [Mkdir raw_dir, Mkdir processed_dir, Arun (site @ ''/'') index_config,
                     Print (Found 0), Print Crawling_completed]\<rparr>)"
proof -
  let ?r' = "index_page\<lparr>links := (''external'', [[(''href'', ''/posts/z'')]]) # links index_page\<rparr>"
  let ?env = "\<lparr>environ = [(''OPENAI_API_KEY'', ''sk-1'')], initial = Inr failed_result,
         steps = (\<lambda>i. sample_step (Inr failed_result))\<rparr>"
  have 1: "map_of (links index_page) ''internal'' = map_of (links ?r') ''internal''"
    by simp
  have 2: "truthy (getenv ?env ''OPENAI_API_KEY'') \<and> initial ?env = Inr failed_result
      \<and> (map_of (links failed_result) ''internal'' = None
          \<or> map_of (links failed_result) ''internal'' = Some [])"
    by (simp add: getenv_def failed_result_def)
  have 3: "url_a \<in> set [url_a, url_b]"
    by simp
  note eq = internal_links_only [of index_page ?r', THEN conjunct1, THEN mp, OF 1]
  have a: "discover (internal_links ?r') [] = Inr [url_a, url_b]"
    unfolding eq [symmetric] by (rule sample_discovery)
  note b = internal_links_only [of index_page index_page "[url_a, url_b]", THEN conjunct2,
      THEN conjunct1, THEN mp, OF sample_discovery, THEN bspec, OF 3]
  note c = internal_links_only [of failed_result failed_result _ ?env sample_loads world0,
      THEN conjunct2, THEN conjunct2, THEN mp, OF 2, THEN conjunct2]
  have c': "main sample_loads ?env world0 =
      (0, \<lparr>files = Map.empty,
            trace = [Mkdir raw_dir, Mkdir processed_dir, Arun (site @ ''/'') index_config,
                     Print (Found 0), Print Crawling_completed]\<rparr>)"
    unfolding c by (simp add: world0_def)
  from a b c' show ?thesis
    by (intro conjI)
qed

end
